theory Spec2Isabelle
  imports Complex_Main "HOL-Library.Log_Nat"
begin

section \<open>Python values\<close>

text \<open>
  The scoring code of \<^verbatim>\<open>app.py\<close> works on Python numbers: unbounded integers and
  IEEE 754 binary64 floats. A float is modelled by the rational number it denotes, or one of
  the two infinities, or NaN. The two zeros \<^verbatim>\<open>0.0\<close> and \<^verbatim>\<open>-0.0\<close> compare equal in
  Python and are both \<open>Fin 0\<close> here.
\<close>

datatype error = ZeroDivisionError | OverflowError | KeyError

datatype pyfloat = Fin rat | PInf | NInf | NaN

datatype pynum = PyInt int | PyFloat pyfloat

text \<open>Sequencing of computations that may raise: the first exception wins.\<close>

definition and_then :: "error + 'a \<Rightarrow> ('a \<Rightarrow> error + 'b) \<Rightarrow> error + 'b" where
  "and_then m f = (case m of Inl e \<Rightarrow> Inl e | Inr v \<Rightarrow> f v)"

subsection \<open>Rounding to binary64\<close>

text \<open>Nearest integer, a tie going to the even neighbour.\<close>

definition round_half_even :: "rat \<Rightarrow> int" where
  "round_half_even x =
     (let f = \<lfloor>x\<rfloor>; d = x - of_int f
      in if d < 1 / 2 then f
         else if 1 / 2 < d then f + 1
         else if even f then f else f + 1)"

text \<open>
  For \<open>0 < x\<close>, \<open>ilog2 x\<close> is the exponent \<open>e\<close> with \<open>2\<^sup>e \<le> x < 2\<^sup>e\<^sup>+\<^sup>1\<close>, found from the bit
  length of the integer part of \<open>x\<close>, or of \<open>1 / x\<close> when \<open>x < 1\<close>.
\<close>

definition ilog2 :: "rat \<Rightarrow> int" where
  "ilog2 x = (if 1 \<le> x then bitlen \<lfloor>x\<rfloor> - 1 else - bitlen (\<lceil>1 / x\<rceil> - 1))"

text \<open>
  The exponent of the unit in the last place: 53 significant bits, and a fixed spacing of
  \<open>2\<^sup>-\<^sup>1\<^sup>0\<^sup>7\<^sup>4\<close> in the subnormal range below \<open>2\<^sup>-\<^sup>1\<^sup>0\<^sup>2\<^sup>2\<close>.
\<close>

definition ulp_exp :: "rat \<Rightarrow> int" where
  "ulp_exp x = max (ilog2 \<bar>x\<bar>) (- 1022) - 52"

text \<open>
  Round to nearest, ties to even, with the exponent unbounded above. A result of magnitude
  \<open>2\<^sup>1\<^sup>0\<^sup>2\<^sup>4\<close> or more is outside binary64; each operation below says what happens then.
\<close>

definition round_double :: "rat \<Rightarrow> rat" where
  "round_double x =
     (if x = 0 then 0
      else let u = 2 powi (ulp_exp x) in of_int (round_half_even (x / u)) * u)"

definition dbl_limit :: rat where
  "dbl_limit = 2 ^ 1024"

text \<open>The result of a float operation whose exact value is \<open>x\<close>: overflow gives an infinity.\<close>

definition ieee_result :: "rat \<Rightarrow> pyfloat" where
  "ieee_result x =
     (let r = round_double x
      in if dbl_limit \<le> r then PInf else if r \<le> - dbl_limit then NInf else Fin r)"

text \<open>A float literal such as \<^verbatim>\<open>0.4\<close> is the double nearest to the decimal.\<close>

definition float_literal :: "rat \<Rightarrow> pyfloat" where
  "float_literal x = Fin (round_double x)"

subsection \<open>Float arithmetic and comparison\<close>

fun float_sgn :: "pyfloat \<Rightarrow> int" where
  "float_sgn (Fin x) = (if x < 0 then - 1 else if x = 0 then 0 else 1)"
| "float_sgn PInf = 1"
| "float_sgn NInf = - 1"
| "float_sgn NaN = 0"

text \<open>
  Float multiplication and addition never raise in Python: a product or sum too large for
  binary64 is an infinity, and an undefined one (\<^verbatim>\<open>inf * 0\<close>, \<^verbatim>\<open>inf - inf\<close>) is NaN.
\<close>

fun float_mul :: "pyfloat \<Rightarrow> pyfloat \<Rightarrow> pyfloat" where
  "float_mul (Fin x) (Fin y) = ieee_result (x * y)"
| "float_mul NaN b = NaN"
| "float_mul a NaN = NaN"
| "float_mul a b =
     (let s = float_sgn a * float_sgn b
      in if s = 0 then NaN else if 0 < s then PInf else NInf)"

fun float_add :: "pyfloat \<Rightarrow> pyfloat \<Rightarrow> pyfloat" where
  "float_add (Fin x) (Fin y) = ieee_result (x + y)"
| "float_add NaN b = NaN"
| "float_add a NaN = NaN"
| "float_add PInf NInf = NaN"
| "float_add NInf PInf = NaN"
| "float_add PInf b = PInf"
| "float_add NInf b = NInf"
| "float_add a PInf = PInf"
| "float_add a NInf = NInf"

fun float_less :: "pyfloat \<Rightarrow> pyfloat \<Rightarrow> bool" where
  "float_less (Fin x) (Fin y) = (x < y)"
| "float_less NaN b = False"
| "float_less a NaN = False"
| "float_less PInf b = False"
| "float_less a PInf = True"
| "float_less NInf b = True"
| "float_less a NInf = False"

fun float_le :: "pyfloat \<Rightarrow> pyfloat \<Rightarrow> bool" where
  "float_le (Fin x) (Fin y) = (x \<le> y)"
| "float_le NaN b = False"
| "float_le a NaN = False"
| "float_le a PInf = True"
| "float_le NInf b = True"
| "float_le PInf b = False"
| "float_le a NInf = False"

subsection \<open>Operators on Python numbers\<close>

text \<open>
  An integer operand of a mixed operation is converted to a float first; Python raises
  OverflowError when the integer is too large. Comparisons between an integer and a float
  are exact.
\<close>

definition int_to_float :: "int \<Rightarrow> error + pyfloat" where
  "int_to_float i =
     (let r = round_double (of_int i)
      in if dbl_limit \<le> \<bar>r\<bar> then Inl OverflowError else Inr (Fin r))"

fun as_float :: "pynum \<Rightarrow> error + pyfloat" where
  "as_float (PyFloat f) = Inr f"
| "as_float (PyInt i) = int_to_float i"

fun num_value :: "pynum \<Rightarrow> pyfloat" where
  "num_value (PyFloat f) = f"
| "num_value (PyInt i) = Fin (of_int i)"

definition num_less :: "pynum \<Rightarrow> pynum \<Rightarrow> bool" where
  "num_less a b = float_less (num_value a) (num_value b)"

definition num_le :: "pynum \<Rightarrow> pynum \<Rightarrow> bool" where
  "num_le a b = float_le (num_value a) (num_value b)"

fun num_mul :: "pynum \<Rightarrow> pynum \<Rightarrow> error + pynum" where
  "num_mul (PyInt i) (PyInt j) = Inr (PyInt (i * j))"
| "num_mul a b =
     and_then (as_float a) (\<lambda>x. and_then (as_float b) (\<lambda>y. Inr (PyFloat (float_mul x y))))"

fun num_add :: "pynum \<Rightarrow> pynum \<Rightarrow> error + pynum" where
  "num_add (PyInt i) (PyInt j) = Inr (PyInt (i + j))"
| "num_add a b =
     and_then (as_float a) (\<lambda>x. and_then (as_float b) (\<lambda>y. Inr (PyFloat (float_add x y))))"

text \<open>
  \<^verbatim>\<open>a / b\<close> on two integers: the correctly rounded quotient, ZeroDivisionError for
  \<^verbatim>\<open>b == 0\<close>, OverflowError when the quotient is too large for a float.
\<close>

definition int_truediv :: "int \<Rightarrow> int \<Rightarrow> error + pynum" where
  "int_truediv a b =
     (if b = 0 then Inl ZeroDivisionError
      else let r = round_double (of_int a / of_int b)
           in if dbl_limit \<le> \<bar>r\<bar> then Inl OverflowError else Inr (PyFloat (Fin r)))"

text \<open>\<^verbatim>\<open>min(a, b)\<close> keeps its first argument unless the second is smaller.\<close>

definition py_min :: "pynum \<Rightarrow> pynum \<Rightarrow> pynum" where
  "py_min a b = (if num_less b a then b else a)"

text \<open>
  \<^verbatim>\<open>round(x, 2)\<close>: an integer is returned as it is, an infinity or NaN rounds to itself,
  and a finite float is rounded to the nearest decimal with two places (a tie going to the
  even digit), which is then read back as a float.
\<close>

fun py_round2 :: "pynum \<Rightarrow> error + pynum" where
  "py_round2 (PyInt i) = Inr (PyInt i)"
| "py_round2 (PyFloat (Fin x)) =
     (let r = round_double (of_int (round_half_even (x * 100)) / 100)
      in if dbl_limit \<le> \<bar>r\<bar> then Inl OverflowError else Inr (PyFloat (Fin r)))"
| "py_round2 (PyFloat f) = Inr (PyFloat f)"

subsection \<open>Dictionaries\<close>

text \<open>\<^verbatim>\<open>d.get(k, default)\<close> and \<^verbatim>\<open>d[k]\<close>, on a dictionary given by its items.\<close>

definition dict_get :: "('k \<times> 'v) list \<Rightarrow> 'k \<Rightarrow> 'v \<Rightarrow> 'v" where
  "dict_get d k dflt = (case map_of d k of None \<Rightarrow> dflt | Some v \<Rightarrow> v)"

definition dict_item :: "('k \<times> 'v) list \<Rightarrow> 'k \<Rightarrow> error + 'v" where
  "dict_item d k = (case map_of d k of None \<Rightarrow> Inl KeyError | Some v \<Rightarrow> Inr v)"

section \<open>The score calculator\<close>

definition CEI_WEIGHTS :: "(string \<times> pynum) list" where
  "CEI_WEIGHTS =
     [(''participation'', PyFloat (float_literal (4 / 10))),
      (''attentiveness'', PyFloat (float_literal (4 / 10))),
      (''presence'', PyFloat (float_literal (2 / 10)))]"

definition CEI_LEVEL_SCORES :: "(string \<times> pynum) list" where
  "CEI_LEVEL_SCORES = [(''low'', PyInt 10), (''medium'', PyInt 25), (''high'', PyInt 40)]"

text \<open>
  The right-hand side of \<^verbatim>\<open>presence_score = min((present / class_size) * CEI_LEVEL_SCORES["high"],
  CEI_LEVEL_SCORES["high"])\<close>, evaluated left to right.
\<close>

definition presence_score :: "int \<Rightarrow> int \<Rightarrow> error + pynum" where
  "presence_score present class_size =
     and_then (int_truediv present class_size) (\<lambda>ratio.
     and_then (dict_item CEI_LEVEL_SCORES ''high'') (\<lambda>high.
     and_then (num_mul ratio high) (\<lambda>scaled.
     and_then (dict_item CEI_LEVEL_SCORES ''high'') (\<lambda>cap.
     Inr (py_min scaled cap)))))"

text \<open>The argument of \<^verbatim>\<open>round\<close>: the weighted sum, added left to right.\<close>

definition weighted_sum :: "pynum \<Rightarrow> pynum \<Rightarrow> pynum \<Rightarrow> error + pynum" where
  "weighted_sum part_score att_score presence =
     and_then (dict_item CEI_WEIGHTS ''participation'') (\<lambda>wp.
     and_then (num_mul wp part_score) (\<lambda>t1.
     and_then (dict_item CEI_WEIGHTS ''attentiveness'') (\<lambda>wa.
     and_then (num_mul wa att_score) (\<lambda>t2.
     and_then (num_add t1 t2) (\<lambda>s12.
     and_then (dict_item CEI_WEIGHTS ''presence'') (\<lambda>wq.
     and_then (num_mul wq presence) (\<lambda>t3.
     num_add s12 t3)))))))"

definition compute_cei :: "string \<Rightarrow> string \<Rightarrow> int \<Rightarrow> int \<Rightarrow> error + pynum" where
  "compute_cei participation attentiveness present class_size =
     (if class_size \<le> 0 then Inr (PyInt 0)
      else
        let part_score = dict_get CEI_LEVEL_SCORES participation (PyInt 0);
            att_score = dict_get CEI_LEVEL_SCORES attentiveness (PyInt 0)
        in and_then (presence_score present class_size) (\<lambda>presence.
           and_then (weighted_sum part_score att_score presence) py_round2))"

section \<open>The trend interpreter\<close>

record rule =
  rule_min :: int
  rule_max :: int
  status :: string
  message :: string

definition ENGAGEMENT_RULES :: "rule list" where
  "ENGAGEMENT_RULES =
     [\<lparr>rule_min = 75, rule_max = 100, status = ''green'',
        message = ''Class is responding well. Keep your current approach.''\<rparr>,
      \<lparr>rule_min = 60, rule_max = 75, status = ''yellow'',
        message = ''Engagement is fair. Small adjustments may help.''\<rparr>,
      \<lparr>rule_min = 0, rule_max = 60, status = ''red'',
        message = ''Engagement is low. Consider changing pace or method.''\<rparr>]"

text \<open>
  A score series is the list of its scores, each a finite number. The data frame library
  that provides \<^verbatim>\<open>Series.empty\<close> and \<^verbatim>\<open>Series.mean\<close> is not part of the repository.
\<close>

type_synonym series = "rat list"

definition series_empty :: "series \<Rightarrow> bool" where
  "series_empty s = (s = [])"

text \<open>
  Modelled from the spec: \<^verbatim>\<open>Series.mean\<close> belongs to the data frame library, which is not
  among the repository's sources. The spec's words are "arithmetic mean of all scores in the series"; the
  result is exact, without the rounding of a float summation.
\<close>

definition series_mean :: "series \<Rightarrow> rat" where
  "series_mean s = sum_list s / of_nat (length s)"

text \<open>The \<^verbatim>\<open>for rule in ENGAGEMENT_RULES\<close> loop: the first rule whose band holds the average.\<close>

fun first_rule :: "rule list \<Rightarrow> rat \<Rightarrow> (string \<times> string) option" where
  "first_rule [] avg = None"
| "first_rule (r # rs) avg =
     (if of_int (rule_min r) \<le> avg \<and> avg < of_int (rule_max r)
      then Some (status r, message r)
      else first_rule rs avg)"

definition series_avg :: "series \<Rightarrow> rat" where
  "series_avg s = (if \<not> series_empty s then series_mean s else 0)"

definition interpret_engagement :: "series \<Rightarrow> string \<times> string" where
  "interpret_engagement s =
     (let avg = series_avg s
      in case first_rule ENGAGEMENT_RULES avg of
           Some r \<Rightarrow> r
         | None \<Rightarrow> (''red'', ''Engagement data unclear. Please reflect more consistently.''))"

section \<open>The formula of the specification\<close>

text \<open>
  The level-to-points mapping and the score formula as the specification words them, with
  Python's operators: \<^verbatim>\<open>round(0.4*P + 0.4*A + 0.2*min((presentCount/classSize)*40, 40), 2)\<close>.
\<close>

definition level_points :: "string \<Rightarrow> int" where
  "level_points l =
     (if l = ''low'' then 10 else if l = ''medium'' then 25 else if l = ''high'' then 40 else 0)"



section \<open>Scores that the calculator can produce\<close>

text \<open>
  A number is a computed score when some call of \<^verbatim>\<open>compute_cei\<close> returns it. The level
  arguments, the number present and the class size are arbitrary.
\<close>

inductive cei_score :: "rat \<Rightarrow> bool" where
  "compute_cei participation attentiveness present class_size = Inr v \<Longrightarrow>
   num_value v = Fin x \<Longrightarrow> cei_score x"

section \<open>Properties of the rounding functions\<close>

lemma round_half_even_of_int: "round_half_even (of_int n) = n"
  by (simp add: round_half_even_def)

lemma round_half_even_mono: "x \<le> y \<Longrightarrow> round_half_even x \<le> round_half_even y"
proof -
  assume xy: "x \<le> y"
  have fl: "\<lfloor>x\<rfloor> \<le> \<lfloor>y\<rfloor>" using xy by (rule floor_mono)
  show ?thesis
  proof (cases "\<lfloor>x\<rfloor> = \<lfloor>y\<rfloor>")
    case True
    then have "x - of_int \<lfloor>x\<rfloor> \<le> y - of_int \<lfloor>y\<rfloor>" using xy by simp
    with True show ?thesis
      by (auto simp add: round_half_even_def Let_def)
  next
    case False
    with fl have "\<lfloor>x\<rfloor> + 1 \<le> \<lfloor>y\<rfloor>" by simp
    moreover have "round_half_even x \<le> \<lfloor>x\<rfloor> + 1"
      by (simp add: round_half_even_def Let_def)
    moreover have "\<lfloor>y\<rfloor> \<le> round_half_even y"
      by (simp add: round_half_even_def Let_def)
    ultimately show ?thesis by linarith
  qed
qed

lemma round_half_even_minus: "round_half_even (- x) = - round_half_even x"
proof (cases "x = of_int \<lfloor>x\<rfloor>")
  case True
  then obtain n where "x = of_int n" ..
  then have "- x = of_int (- n)" by simp
  then show ?thesis using \<open>x = of_int n\<close> round_half_even_of_int by metis
next
  case False
  then have lt: "of_int \<lfloor>x\<rfloor> < x" using of_int_floor_le [of x] by linarith
  have "x < of_int \<lfloor>x\<rfloor> + 1" by linarith
  have f: "\<lfloor>- x\<rfloor> = - \<lfloor>x\<rfloor> - 1"
    using lt \<open>x < of_int \<lfloor>x\<rfloor> + 1\<close> by (intro floor_unique) auto
  show ?thesis
    unfolding round_half_even_def Let_def f
    by (auto simp add: algebra_simps)
qed

lemma ilog2_bounds:
  assumes "0 < x"
  shows "2 powi (ilog2 x) \<le> x" and "x < 2 powi (ilog2 x + 1)"
proof -
  have "2 powi (ilog2 x) \<le> x \<and> x < 2 powi (ilog2 x + 1)"
  proof (cases "1 \<le> x")
    case True
    define n where "n = \<lfloor>x\<rfloor>"
    have n: "0 < n" using True by (simp add: n_def)
    have b1: "1 \<le> bitlen n" using n bitlen_eq_zero_iff [of n] bitlen_nonneg [of n] by linarith
    from bitlen_bounds [OF n] have lo: "2 ^ nat (bitlen n - 1) \<le> n" and hi: "n < 2 ^ nat (bitlen n)"
      by auto
    have e: "ilog2 x = bitlen n - 1" using True by (simp add: ilog2_def n_def)
    have "(2::rat) powi (bitlen n - 1) = of_int (2 ^ nat (bitlen n - 1))"
      using b1 by (simp add: power_int_def)
    also have "\<dots> \<le> of_int n" using lo by (simp only: of_int_le_iff)
    also have "\<dots> \<le> x" by (simp add: n_def)
    finally have A: "2 powi (ilog2 x) \<le> x" by (simp add: e)
    have "n + 1 \<le> 2 ^ nat (bitlen n)" using hi by simp
    then have "(of_int (n + 1) :: rat) \<le> of_int (2 ^ nat (bitlen n))" by (simp only: of_int_le_iff)
    moreover have "x < of_int (n + 1)" unfolding n_def using floor_correct [of x] by simp
    moreover have "(2::rat) powi (bitlen n) = of_int (2 ^ nat (bitlen n))"
      using b1 by (simp add: power_int_def)
    ultimately have "x < 2 powi (ilog2 x + 1)" by (simp add: e)
    with A show ?thesis by simp
  next
    case False
    define y where "y = 1 / x"
    have y1: "1 < y" using False assms by (simp add: y_def)
    define m where "m = \<lceil>y\<rceil> - 1"
    have m: "0 < m" using y1 by (simp add: m_def)
    have b1: "1 \<le> bitlen m" using m bitlen_eq_zero_iff [of m] bitlen_nonneg [of m] by linarith
    from bitlen_bounds [OF m] have lo: "2 ^ nat (bitlen m - 1) \<le> m" and hi: "m < 2 ^ nat (bitlen m)"
      by auto
    have e: "ilog2 x = - bitlen m" using False by (simp add: ilog2_def m_def y_def)
    have my: "of_int m < y" unfolding m_def using ceiling_correct [of y] by simp
    have ym: "y \<le> of_int (m + 1)" unfolding m_def by (simp add: le_of_int_ceiling)
    have "rat_of_int (2 ^ nat (bitlen m - 1)) \<le> rat_of_int m"
      using lo by (simp only: of_int_le_iff)
    then have "(2::rat) ^ nat (bitlen m - 1) \<le> of_int m"
      by (simp only: of_int_power of_int_numeral)
    then have ylo: "2 ^ nat (bitlen m - 1) < y" using my by linarith
    have "m + 1 \<le> 2 ^ nat (bitlen m)" using hi by simp
    then have "rat_of_int (m + 1) \<le> rat_of_int (2 ^ nat (bitlen m))"
      by (simp only: of_int_le_iff)
    then have "rat_of_int (m + 1) \<le> 2 ^ nat (bitlen m)"
      by (simp only: of_int_power of_int_numeral)
    then have yhi: "y \<le> 2 ^ nat (bitlen m)" using ym by linarith
    have xy: "x = 1 / y" using assms by (simp add: y_def)
    have ypos: "0 < y" using y1 by simp
    have "(2::rat) powi (- bitlen m) = 1 / 2 ^ nat (bitlen m)"
      using b1 by (simp add: power_int_def field_simps)
    also have "\<dots> \<le> 1 / y" using yhi ypos by (simp add: frac_le)
    finally have "2 powi (- bitlen m) \<le> 1 / y" .
    then have A: "2 powi (ilog2 x) \<le> x" unfolding e using xy by simp
    have "(2::rat) powi (- bitlen m + 1) = 1 / 2 ^ nat (bitlen m - 1)"
      using b1 by (simp add: power_int_def field_simps nat_diff_distrib)
    moreover have "1 / y < 1 / 2 ^ nat (bitlen m - 1)"
      using ylo by (simp add: frac_less2)
    ultimately have "1 / y < 2 powi (- bitlen m + 1)" by simp
    then have "x < 2 powi (ilog2 x + 1)" unfolding e using xy by simp
    with A show ?thesis by simp
  qed
  then show "2 powi (ilog2 x) \<le> x" and "x < 2 powi (ilog2 x + 1)" by simp_all
qed

lemma pow2_less_imp_less: "(2::rat) powi a < 2 powi b \<Longrightarrow> a < b"
proof (rule ccontr)
  assume lt: "(2::rat) powi a < 2 powi b" and "\<not> a < b"
  then have "b \<le> a" by simp
  then have "(2::rat) powi b \<le> 2 powi a" by (rule power_int_increasing) simp
  with lt show False by simp
qed

lemma ilog2_unique:
  assumes "0 < x" "2 powi e \<le> x" "x < 2 powi (e + 1)"
  shows "ilog2 x = e"
proof -
  have "(2::rat) powi (ilog2 x) < 2 powi (e + 1)"
    using ilog2_bounds(1) [OF assms(1)] assms(3) by (rule le_less_trans)
  then have "ilog2 x < e + 1" by (rule pow2_less_imp_less)
  moreover have "(2::rat) powi e < 2 powi (ilog2 x + 1)"
    using assms(2) ilog2_bounds(2) [OF assms(1)] by (rule le_less_trans)
  then have "e < ilog2 x + 1" by (rule pow2_less_imp_less)
  ultimately show ?thesis by simp
qed

lemma ilog2_mono:
  assumes "0 < x" "x \<le> y"
  shows "ilog2 x \<le> ilog2 y"
proof -
  have y: "0 < y" using assms by simp
  have "(2::rat) powi (ilog2 x) \<le> x" using assms(1) by (rule ilog2_bounds)
  also have "x \<le> y" by fact
  also have "y < 2 powi (ilog2 y + 1)" using y by (rule ilog2_bounds)
  finally have "ilog2 x < ilog2 y + 1" by (rule pow2_less_imp_less)
  then show ?thesis by simp
qed

lemma ilog2_pow2: "ilog2 (2 powi e) = e"
proof (rule ilog2_unique)
  show "(0::rat) < 2 powi e" by simp
  show "(2::rat) powi e \<le> 2 powi e" by simp
  show "(2::rat) powi e < 2 powi (e + 1)" by (rule power_int_strict_increasing) simp_all
qed

lemma round_double_zero: "round_double 0 = 0"
  by (simp add: round_double_def)

lemma round_double_minus: "round_double (- x) = - round_double x"
  by (simp add: round_double_def ulp_exp_def Let_def round_half_even_minus)

lemma round_double_nonneg:
  assumes "0 \<le> x"
  shows "0 \<le> round_double x"
proof (cases "x = 0")
  case True
  then show ?thesis by (simp add: round_double_zero)
next
  case False
  define u :: rat where "u = 2 powi (ulp_exp x)"
  have u: "0 < u" by (simp add: u_def)
  have "of_int 0 \<le> x / u" using assms u by simp
  then have "round_half_even (of_int 0) \<le> round_half_even (x / u)" by (rule round_half_even_mono)
  then have "0 \<le> round_half_even (x / u)" by (simp only: round_half_even_of_int)
  then have "0 \<le> rat_of_int (round_half_even (x / u)) * u" using u by simp
  then show ?thesis using False by (simp add: round_double_def Let_def u_def)
qed

lemma pow2_split: "(2::rat) powi (e + 53) = 2 ^ 53 * 2 powi e"
proof -
  have "(2::rat) powi (e + 53) = 2 powi e * 2 powi 53" by (rule power_int_add) simp
  then show ?thesis by simp
qed

lemma round_double_upper:
  assumes "0 < x"
  shows "round_double x \<le> 2 powi (ulp_exp x + 53)"
proof -
  define u :: rat where "u = 2 powi (ulp_exp x)"
  have u: "0 < u" by (simp add: u_def)
  have "ilog2 x + 1 \<le> ulp_exp x + 53" using assms by (simp add: ulp_exp_def)
  then have "(2::rat) powi (ilog2 x + 1) \<le> 2 powi (ulp_exp x + 53)"
    by (rule power_int_increasing) simp
  with ilog2_bounds(2) [OF assms] have "x < 2 powi (ulp_exp x + 53)" by simp
  then have "x < 2 ^ 53 * u" by (simp only: pow2_split u_def)
  then have "x / u < 2 ^ 53" using u by (simp add: pos_divide_less_eq)
  then have "x / u \<le> of_int (2 ^ 53)" by simp
  then have "round_half_even (x / u) \<le> round_half_even (of_int (2 ^ 53))"
    by (rule round_half_even_mono)
  then have "round_half_even (x / u) \<le> 2 ^ 53" by (simp only: round_half_even_of_int)
  then have "rat_of_int (round_half_even (x / u)) \<le> rat_of_int (2 ^ 53)"
    by (simp only: of_int_le_iff)
  then have "rat_of_int (round_half_even (x / u)) * u \<le> 2 ^ 53 * u" using u by simp
  then have "round_double x \<le> 2 ^ 53 * u"
    using assms by (simp add: round_double_def Let_def u_def)
  then show ?thesis by (simp only: pow2_split u_def)
qed

lemma round_double_lower:
  assumes "0 < x" "- 1022 \<le> ilog2 x"
  shows "2 powi (ilog2 x) \<le> round_double x"
proof -
  define u :: rat where "u = 2 powi (ulp_exp x)"
  have u: "0 < u" by (simp add: u_def)
  have e: "ilog2 x = (ulp_exp x + 53) - 1" using assms by (simp add: ulp_exp_def)
  have "(2::rat) powi (ilog2 x) * 2 = 2 powi (ulp_exp x + 53)"
    unfolding e by (rule power_int_minus_mult) simp
  then have p: "(2::rat) powi (ilog2 x) = 2 ^ 52 * u"
    by (simp add: pow2_split u_def)
  have "2 ^ 52 * u \<le> x" using ilog2_bounds(1) [OF assms(1)] by (simp only: p)
  then have "2 ^ 52 \<le> x / u" using u by (simp add: pos_le_divide_eq)
  then have "of_int (2 ^ 52) \<le> x / u" by simp
  then have "round_half_even (of_int (2 ^ 52)) \<le> round_half_even (x / u)"
    by (rule round_half_even_mono)
  then have "2 ^ 52 \<le> round_half_even (x / u)" by (simp only: round_half_even_of_int)
  then have "rat_of_int (2 ^ 52) \<le> rat_of_int (round_half_even (x / u))"
    by (simp only: of_int_le_iff)
  then have "2 ^ 52 * u \<le> rat_of_int (round_half_even (x / u)) * u" using u by simp
  then have "2 ^ 52 * u \<le> round_double x"
    using assms by (simp add: round_double_def Let_def u_def)
  then show ?thesis by (simp only: p)
qed

lemma round_double_mono_pos:
  assumes "0 < x" "x \<le> y"
  shows "round_double x \<le> round_double y"
proof -
  have y: "0 < y" using assms by simp
  have il: "ilog2 x \<le> ilog2 y" using assms by (rule ilog2_mono)
  then have ue: "ulp_exp x \<le> ulp_exp y" using assms y by (simp add: ulp_exp_def)
  show ?thesis
  proof (cases "ulp_exp x = ulp_exp y")
    case True
    define u :: rat where "u = 2 powi (ulp_exp y)"
    have u: "0 < u" by (simp add: u_def)
    have "x / u \<le> y / u" using assms u by (simp add: divide_right_mono)
    then have "round_half_even (x / u) \<le> round_half_even (y / u)" by (rule round_half_even_mono)
    then have "rat_of_int (round_half_even (x / u)) \<le> rat_of_int (round_half_even (y / u))"
      by (simp only: of_int_le_iff)
    then have "rat_of_int (round_half_even (x / u)) * u \<le> rat_of_int (round_half_even (y / u)) * u"
      using u by simp
    then show ?thesis using assms y True by (simp add: round_double_def Let_def u_def)
  next
    case False
    with ue have lt: "ulp_exp x < ulp_exp y" by simp
    then have big: "- 1022 \<le> ilog2 y" and ey: "ulp_exp x + 53 \<le> ilog2 y"
      using assms y by (simp_all add: ulp_exp_def max_def split: if_splits)
    have "round_double x \<le> 2 powi (ulp_exp x + 53)" using assms(1) by (rule round_double_upper)
    also have "(2::rat) powi (ulp_exp x + 53) \<le> 2 powi (ilog2 y)"
      using ey by (rule power_int_increasing) simp
    also have "\<dots> \<le> round_double y" using y big by (rule round_double_lower)
    finally show ?thesis .
  qed
qed

lemma round_double_mono:
  assumes "x \<le> y"
  shows "round_double x \<le> round_double y"
proof -
  consider "0 < x" | "x \<le> 0" "0 \<le> y" | "y < 0" by linarith
  then show ?thesis
  proof cases
    case 1
    then show ?thesis using assms by (rule round_double_mono_pos)
  next
    case 2
    then have "0 \<le> round_double (- x)" by (intro round_double_nonneg) simp
    then have "round_double x \<le> 0" by (simp add: round_double_minus)
    also have "0 \<le> round_double y" using 2 by (intro round_double_nonneg)
    finally show ?thesis .
  next
    case 3
    then have "0 < - y" "- y \<le> - x" using assms by simp_all
    then have "round_double (- y) \<le> round_double (- x)" by (rule round_double_mono_pos)
    then show ?thesis by (simp add: round_double_minus)
  qed
qed

lemma round_double_pow2:
  assumes "- 1022 \<le> e"
  shows "round_double (2 powi e) = 2 powi e"
proof -
  have ue: "ulp_exp (2 powi e) = e - 52" using assms by (simp add: ulp_exp_def ilog2_pow2)
  have "(2::rat) powi (e - 52 + 53) = 2 ^ 53 * 2 powi (e - 52)" by (rule pow2_split)
  moreover have "(2::rat) powi (e - 52 + 53 - 1) * 2 = 2 powi (e - 52 + 53)"
    by (rule power_int_minus_mult) simp
  ultimately have p: "(2::rat) powi e = 2 ^ 52 * 2 powi (e - 52)" by simp
  have "(2::rat) powi e / 2 powi (e - 52) = of_int (2 ^ 52)"
    by (subst p) simp
  then have "round_half_even (2 powi e / 2 powi (e - 52)) = 2 ^ 52"
    by (simp only: round_half_even_of_int)
  then show ?thesis
    unfolding round_double_def Let_def ue using p by simp
qed

section \<open>Evaluated constants\<close>

text \<open>The overflow limit as a numeral, for evaluation.\<close>

lemma dbl_limit_numeral [code]:
  "dbl_limit = 179769313486231590772930519078902473361797697894230657273430081157732675805500963132708477322407536021120113879871393357658789768814416622492847430639474124377767893424865485276302219601246094119453082952085005768838150682342462881473913110540827237163350510684586298239947245938479716304835356329624224137216"
  by (simp add: dbl_limit_def)

lemma rd_10: "round_double 10 = 10"
  by code_simp

lemma rd_25: "round_double 25 = 25"
  by code_simp

lemma rd_40: "round_double 40 = 40"
  by code_simp

lemma rd_32: "round_double 32 = 32"
  by code_simp

section \<open>Bounds through the score calculation\<close>

lemma and_then_Inr: "and_then (Inr v) f = f v"
  by (simp add: and_then_def)

lemma and_then_Inl: "and_then (Inl e) f = Inl e"
  by (simp add: and_then_def)


lemma dbl_limit_pos: "0 < dbl_limit"
  by (simp add: dbl_limit_def)

lemma ieee_result_le:
  assumes "x \<le> y" "round_double y = b" "b < dbl_limit"
  shows "float_le (ieee_result x) (Fin b)"
proof -
  have "round_double x \<le> b" using round_double_mono [OF assms(1)] assms(2) by simp
  then show ?thesis using assms(3) by (simp add: ieee_result_def Let_def)
qed

lemma ieee_result_ge:
  assumes "y \<le> x" "round_double y = a" "- dbl_limit < a"
  shows "float_le (Fin a) (ieee_result x)"
proof -
  have "a \<le> round_double x" using round_double_mono [OF assms(1)] assms(2) by simp
  then show ?thesis using assms(3) by (simp add: ieee_result_def Let_def)
qed

lemma float_between:
  "float_le (Fin a) f \<Longrightarrow> float_le f (Fin b) \<Longrightarrow> \<exists>r. f = Fin r \<and> a \<le> r \<and> r \<le> b"
  by (cases f) simp_all

lemma float_le_Fin_cases: "float_le f (Fin b) \<Longrightarrow> f = NInf \<or> (\<exists>r. f = Fin r \<and> r \<le> b)"
  by (cases f) simp_all

lemma ieee_result_not_NaN: "ieee_result x \<noteq> NaN"
  by (simp add: ieee_result_def Let_def)

lemma level_points_cases:
  "level_points l = 0 \<or> level_points l = 10 \<or> level_points l = 25 \<or> level_points l = 40"
  by (simp add: level_points_def)

lemma scores_get: "dict_get CEI_LEVEL_SCORES l (PyInt 0) = PyInt (level_points l)"
  by (simp add: dict_get_def CEI_LEVEL_SCORES_def level_points_def)

lemma scores_high: "dict_item CEI_LEVEL_SCORES ''high'' = Inr (PyInt 40)"
  by (simp add: dict_item_def CEI_LEVEL_SCORES_def)

lemma weights_participation:
  "dict_item CEI_WEIGHTS ''participation'' = Inr (PyFloat (float_literal (4 / 10)))"
  by (simp add: dict_item_def CEI_WEIGHTS_def)

lemma weights_attentiveness:
  "dict_item CEI_WEIGHTS ''attentiveness'' = Inr (PyFloat (float_literal (4 / 10)))"
  by (simp add: dict_item_def CEI_WEIGHTS_def)

lemma weights_presence:
  "dict_item CEI_WEIGHTS ''presence'' = Inr (PyFloat (float_literal (2 / 10)))"
  by (simp add: dict_item_def CEI_WEIGHTS_def)



lemma rd_w2_pos: "0 < round_double (2 / 10)"
  by code_simp
lemma rd_w2_40: "round_double (round_double (2 / 10) * 40) = 8"
  by code_simp
lemma rd_w4_10: "round_double (round_double (4 / 10) * 10) = 4"
  by code_simp
lemma rd_w4_25: "round_double (round_double (4 / 10) * 25) = 10"
  by code_simp
lemma rd_w4_40: "round_double (round_double (4 / 10) * 40) = 16"
  by code_simp

lemma int_to_float_level: "int_to_float (level_points l) = Inr (Fin (of_int (level_points l)))"
  using level_points_cases [of l]
  by (auto simp add: int_to_float_def Let_def round_double_zero rd_10 rd_25 rd_40 dbl_limit_def)

lemma int_to_float_40: "int_to_float 40 = Inr (Fin 40)"
  by (simp add: int_to_float_def Let_def rd_40 dbl_limit_def)

lemma float_num_mul_int:
  "int_to_float i = Inr (Fin y) \<Longrightarrow> num_mul (PyFloat (Fin x)) (PyInt i) = Inr (PyFloat (ieee_result (x * y)))"
  by (simp add: and_then_def)

lemma level_term:
  "\<exists>a. num_mul (PyFloat (float_literal (4 / 10))) (PyInt (level_points l)) = Inr (PyFloat (Fin a))
       \<and> 0 \<le> a \<and> a \<le> 16"
proof -
  define w where "w = round_double (4 / 10)"
  have lit: "float_literal (4 / 10) = Fin w" unfolding float_literal_def w_def ..
  have eq: "num_mul (PyFloat (float_literal (4 / 10))) (PyInt (level_points l))
      = Inr (PyFloat (ieee_result (w * of_int (level_points l))))"
    unfolding lit using int_to_float_level by (rule float_num_mul_int)
  have r10: "round_double (w * 10) = 4" unfolding w_def by (rule rd_w4_10)
  have r25: "round_double (w * 25) = 10" unfolding w_def by (rule rd_w4_25)
  have r40: "round_double (w * 40) = 16" unfolding w_def by (rule rd_w4_40)
  from level_points_cases [of l] show ?thesis
  proof (elim disjE)
    assume "level_points l = 0"
    then show ?thesis unfolding eq
      by (simp add: ieee_result_def Let_def round_double_zero dbl_limit_def)
  next
    assume "level_points l = 10"
    then show ?thesis unfolding eq
      by (simp add: ieee_result_def Let_def r10 dbl_limit_def)
  next
    assume "level_points l = 25"
    then show ?thesis unfolding eq
      by (simp add: ieee_result_def Let_def r25 dbl_limit_def)
  next
    assume "level_points l = 40"
    then show ?thesis unfolding eq
      by (simp add: ieee_result_def Let_def r40 dbl_limit_def)
  qed
qed

lemma float_add_Fin:
  "num_add (PyFloat (Fin a)) (PyFloat f) = Inr (PyFloat (float_add (Fin a) f))"
  by (simp add: and_then_def)

lemma level_sum:
  assumes "0 \<le> a" "a \<le> 16" "0 \<le> b" "b \<le> 16"
  shows "\<exists>s. num_add (PyFloat (Fin a)) (PyFloat (Fin b)) = Inr (PyFloat (Fin s)) \<and> 0 \<le> s \<and> s \<le> 32"
proof -
  have lo: "float_le (Fin 0) (ieee_result (a + b))"
    by (rule ieee_result_ge [where y = 0]) (use assms in \<open>simp_all add: round_double_zero dbl_limit_def\<close>)
  have hi: "float_le (ieee_result (a + b)) (Fin 32)"
    by (rule ieee_result_le [where y = 32]) (use assms in \<open>simp_all add: rd_32 dbl_limit_def\<close>)
  from float_between [OF lo hi] show ?thesis
    by (auto simp add: and_then_def)
qed

lemma presence_term_le:
  assumes "v = PyInt 40 \<or> (\<exists>f. v = PyFloat f \<and> float_le f (Fin 40))"
  shows "\<exists>g. num_mul (PyFloat (float_literal (2 / 10))) v = Inr (PyFloat g) \<and> float_le g (Fin 8)"
proof -
  define w where "w = round_double (2 / 10)"
  have lit: "float_literal (2 / 10) = Fin w" unfolding float_literal_def w_def ..
  have wpos: "0 < w" unfolding w_def by (rule rd_w2_pos)
  have r40: "round_double (w * 40) = 8" unfolding w_def by (rule rd_w2_40)
  have lim: "(8::rat) < dbl_limit" by (simp add: dbl_limit_def)
  from assms show ?thesis
  proof (elim disjE exE conjE)
    assume v: "v = PyInt 40"
    have "num_mul (PyFloat (Fin w)) (PyInt 40) = Inr (PyFloat (ieee_result (w * 40)))"
      using int_to_float_40 by (rule float_num_mul_int)
    moreover have "float_le (ieee_result (w * 40)) (Fin 8)"
      using _ r40 lim by (rule ieee_result_le) simp
    ultimately show ?thesis unfolding v lit by simp
  next
    fix f assume v: "v = PyFloat f" and le: "float_le f (Fin 40)"
    have eq: "num_mul (PyFloat (Fin w)) (PyFloat f) = Inr (PyFloat (float_mul (Fin w) f))"
      by (simp add: and_then_def)
    from float_le_Fin_cases [OF le] have "float_le (float_mul (Fin w) f) (Fin 8)"
    proof (elim disjE exE conjE)
      assume "f = NInf"
      then show ?thesis using wpos by simp
    next
      fix r assume f: "f = Fin r" and r: "r \<le> 40"
      have "w * r \<le> w * 40" using wpos r by simp
      then have "float_le (ieee_result (w * r)) (Fin 8)" using r40 lim by (rule ieee_result_le)
      then show ?thesis by (simp add: f)
    qed
    then show ?thesis unfolding v lit eq by simp
  qed
qed

lemma presence_term_range:
  assumes "v = PyInt 40 \<or> (\<exists>r. v = PyFloat (Fin r) \<and> 0 \<le> r \<and> r \<le> 40)"
  shows "\<exists>z. num_mul (PyFloat (float_literal (2 / 10))) v = Inr (PyFloat (Fin z)) \<and> 0 \<le> z \<and> z \<le> 8"
proof -
  define w where "w = round_double (2 / 10)"
  have lit: "float_literal (2 / 10) = Fin w" unfolding float_literal_def w_def ..
  have wpos: "0 < w" unfolding w_def by (rule rd_w2_pos)
  have r40: "round_double (w * 40) = 8" unfolding w_def by (rule rd_w2_40)
  have lim: "(8::rat) < dbl_limit" "- dbl_limit < (0::rat)" by (simp_all add: dbl_limit_def)
  have bound: "\<exists>z. ieee_result (w * r) = Fin z \<and> 0 \<le> z \<and> z \<le> 8" if "0 \<le> r" "r \<le> 40" for r
  proof -
    have "w * r \<le> w * 40" using wpos that by simp
    then have hi: "float_le (ieee_result (w * r)) (Fin 8)" using r40 lim(1) by (rule ieee_result_le)
    have "0 \<le> w * r" using wpos that by simp
    then have lo: "float_le (Fin 0) (ieee_result (w * r))"
      using round_double_zero lim(2) by (rule ieee_result_ge)
    from float_between [OF lo hi] show ?thesis .
  qed
  from assms show ?thesis
  proof (elim disjE exE conjE)
    assume v: "v = PyInt 40"
    have "num_mul (PyFloat (Fin w)) (PyInt 40) = Inr (PyFloat (ieee_result (w * 40)))"
      using int_to_float_40 by (rule float_num_mul_int)
    with bound [of 40] show ?thesis unfolding v lit by simp
  next
    fix r assume v: "v = PyFloat (Fin r)" and r: "0 \<le> r" "r \<le> 40"
    have eq: "num_mul (PyFloat (Fin w)) (PyFloat (Fin r)) = Inr (PyFloat (ieee_result (w * r)))"
      by (simp add: and_then_def)
    with bound [OF r] show ?thesis unfolding v lit by simp
  qed
qed

lemma total_le:
  assumes "0 \<le> s" "s \<le> 32" "float_le g (Fin 8)"
  shows "\<exists>f. num_add (PyFloat (Fin s)) (PyFloat g) = Inr (PyFloat f) \<and> float_le f (Fin 40)"
proof -
  from float_le_Fin_cases [OF assms(3)] have "float_le (float_add (Fin s) g) (Fin 40)"
  proof (elim disjE exE conjE)
    assume "g = NInf"
    then show ?thesis by simp
  next
    fix z assume g: "g = Fin z" and z: "z \<le> 8"
    have "s + z \<le> 40" using assms(2) z by simp
    then have "float_le (ieee_result (s + z)) (Fin 40)"
      using rd_40 by (rule ieee_result_le) (simp add: dbl_limit_def)
    then show ?thesis by (simp add: g)
  qed
  then show ?thesis unfolding float_add_Fin by simp
qed

lemma total_range:
  assumes "0 \<le> s" "s \<le> 32" "0 \<le> z" "z \<le> 8"
  shows "\<exists>w. num_add (PyFloat (Fin s)) (PyFloat (Fin z)) = Inr (PyFloat (Fin w)) \<and> 0 \<le> w \<and> w \<le> 40"
proof -
  have "s + z \<le> 40" using assms by simp
  then have hi: "float_le (ieee_result (s + z)) (Fin 40)"
    using rd_40 by (rule ieee_result_le) (simp add: dbl_limit_def)
  have "0 \<le> s + z" using assms by simp
  then have lo: "float_le (Fin 0) (ieee_result (s + z))"
    using round_double_zero by (rule ieee_result_ge) (simp add: dbl_limit_def)
  from float_between [OF lo hi] show ?thesis unfolding float_add_Fin by simp
qed

lemma weighted_sum_le:
  assumes "v = PyInt 40 \<or> (\<exists>f. v = PyFloat f \<and> float_le f (Fin 40))"
  shows "\<exists>f. weighted_sum (PyInt (level_points l1)) (PyInt (level_points l2)) v = Inr (PyFloat f)
           \<and> float_le f (Fin 40)"
proof -
  from level_term [of l1] obtain a where
    a: "num_mul (PyFloat (float_literal (4 / 10))) (PyInt (level_points l1)) = Inr (PyFloat (Fin a))"
    and a_bd: "0 \<le> a" "a \<le> 16" by blast
  from level_term [of l2] obtain b where
    b: "num_mul (PyFloat (float_literal (4 / 10))) (PyInt (level_points l2)) = Inr (PyFloat (Fin b))"
    and b_bd: "0 \<le> b" "b \<le> 16" by blast
  from level_sum [OF a_bd b_bd] obtain s where
    s: "num_add (PyFloat (Fin a)) (PyFloat (Fin b)) = Inr (PyFloat (Fin s))"
    and s_bd: "0 \<le> s" "s \<le> 32" by blast
  from presence_term_le [OF assms] obtain g where
    g: "num_mul (PyFloat (float_literal (2 / 10))) v = Inr (PyFloat g)"
    and g_bd: "float_le g (Fin 8)" by blast
  have "weighted_sum (PyInt (level_points l1)) (PyInt (level_points l2)) v
      = num_add (PyFloat (Fin s)) (PyFloat g)"
    unfolding weighted_sum_def weights_participation weights_attentiveness weights_presence
      and_then_Inr a b s g ..
  with total_le [OF s_bd g_bd] show ?thesis by simp
qed

lemma weighted_sum_range:
  assumes "v = PyInt 40 \<or> (\<exists>r. v = PyFloat (Fin r) \<and> 0 \<le> r \<and> r \<le> 40)"
  shows "\<exists>w. weighted_sum (PyInt (level_points l1)) (PyInt (level_points l2)) v = Inr (PyFloat (Fin w))
           \<and> 0 \<le> w \<and> w \<le> 40"
proof -
  from level_term [of l1] obtain a where
    a: "num_mul (PyFloat (float_literal (4 / 10))) (PyInt (level_points l1)) = Inr (PyFloat (Fin a))"
    and a_bd: "0 \<le> a" "a \<le> 16" by blast
  from level_term [of l2] obtain b where
    b: "num_mul (PyFloat (float_literal (4 / 10))) (PyInt (level_points l2)) = Inr (PyFloat (Fin b))"
    and b_bd: "0 \<le> b" "b \<le> 16" by blast
  from level_sum [OF a_bd b_bd] obtain s where
    s: "num_add (PyFloat (Fin a)) (PyFloat (Fin b)) = Inr (PyFloat (Fin s))"
    and s_bd: "0 \<le> s" "s \<le> 32" by blast
  from presence_term_range [OF assms] obtain z where
    z: "num_mul (PyFloat (float_literal (2 / 10))) v = Inr (PyFloat (Fin z))"
    and z_bd: "0 \<le> z" "z \<le> 8" by blast
  have "weighted_sum (PyInt (level_points l1)) (PyInt (level_points l2)) v
      = num_add (PyFloat (Fin s)) (PyFloat (Fin z))"
    unfolding weighted_sum_def weights_participation weights_attentiveness weights_presence
      and_then_Inr a b s z ..
  with total_range [OF s_bd z_bd] show ?thesis by simp
qed

lemma round2_le:
  assumes "w \<le> 40"
  shows "round_double (of_int (round_half_even (w * 100)) / 100) \<le> 40"
proof -
  have "w * 100 \<le> of_int 4000" using assms by simp
  then have "round_half_even (w * 100) \<le> round_half_even (of_int 4000)"
    by (rule round_half_even_mono)
  then have "round_half_even (w * 100) \<le> 4000" by (simp only: round_half_even_of_int)
  then have "rat_of_int (round_half_even (w * 100)) \<le> rat_of_int 4000"
    by (simp only: of_int_le_iff)
  then have "rat_of_int (round_half_even (w * 100)) / 100 \<le> 40" by simp
  then have "round_double (rat_of_int (round_half_even (w * 100)) / 100) \<le> round_double 40"
    by (rule round_double_mono)
  then show ?thesis by (simp only: rd_40)
qed

lemma round2_ge:
  assumes "0 \<le> w"
  shows "0 \<le> round_double (of_int (round_half_even (w * 100)) / 100)"
proof -
  have "of_int 0 \<le> w * 100" using assms by simp
  then have "round_half_even (of_int 0) \<le> round_half_even (w * 100)"
    by (rule round_half_even_mono)
  then have "0 \<le> round_half_even (w * 100)" by (simp only: round_half_even_of_int)
  then have "0 \<le> rat_of_int (round_half_even (w * 100)) / 100" by simp
  then show ?thesis by (rule round_double_nonneg)
qed

lemma py_round2_le:
  assumes "float_le f (Fin 40)"
  shows "case py_round2 (PyFloat f) of Inl e \<Rightarrow> e = OverflowError | Inr v \<Rightarrow> num_le v (PyInt 40)"
  using float_le_Fin_cases [OF assms]
proof (elim disjE exE conjE)
  assume "f = NInf"
  then show ?thesis by (simp add: num_le_def)
next
  fix w assume f: "f = Fin w" and "w \<le> 40"
  from round2_le [OF this(2)] show ?thesis
    unfolding f by (simp add: Let_def num_le_def)
qed

lemma py_round2_range:
  assumes "0 \<le> w" "w \<le> 40"
  shows "\<exists>r. py_round2 (PyFloat (Fin w)) = Inr (PyFloat (Fin r)) \<and> 0 \<le> r \<and> r \<le> 40"
  using round2_le [OF assms(2)] round2_ge [OF assms(1)]
  by (simp add: Let_def dbl_limit_def)

lemma int_truediv_cases:
  assumes "c \<noteq> 0"
  shows "int_truediv p c = Inl OverflowError
       \<or> int_truediv p c = Inr (PyFloat (Fin (round_double (of_int p / of_int c))))"
  using assms by (simp add: int_truediv_def Let_def)

lemma presence_score_of_ratio:
  assumes "int_truediv p c = Inr (PyFloat (Fin q))"
  shows "presence_score p c = Inr (py_min (PyFloat (ieee_result (q * 40))) (PyInt 40))"
  unfolding presence_score_def assms scores_high and_then_Inr
    float_num_mul_int [OF int_to_float_40] ..

lemma presence_score_overflow:
  assumes "int_truediv p c = Inl OverflowError"
  shows "presence_score p c = Inl OverflowError"
  unfolding presence_score_def assms and_then_Inl ..

lemma py_min_le:
  assumes "f \<noteq> NaN"
  shows "py_min (PyFloat f) (PyInt 40) = PyInt 40
       \<or> (\<exists>g. py_min (PyFloat f) (PyInt 40) = PyFloat g \<and> float_le g (Fin 40))"
  using assms by (cases f) (auto simp add: py_min_def num_less_def)

lemma py_min_range:
  assumes "float_le (Fin 0) f"
  shows "py_min (PyFloat f) (PyInt 40) = PyInt 40
       \<or> (\<exists>r. py_min (PyFloat f) (PyInt 40) = PyFloat (Fin r) \<and> 0 \<le> r \<and> r \<le> 40)"
  using assms by (cases f) (auto simp add: py_min_def num_less_def)

lemma presence_score_le:
  assumes "c \<noteq> 0"
  shows "(presence_score p c = Inl OverflowError \<and> int_truediv p c = Inl OverflowError)
       \<or> (\<exists>v. presence_score p c = Inr v \<and> int_truediv p c \<noteq> Inl OverflowError
              \<and> (v = PyInt 40 \<or> (\<exists>f. v = PyFloat f \<and> float_le f (Fin 40))))"
  using int_truediv_cases [OF assms, of p]
proof
  assume "int_truediv p c = Inl OverflowError"
  then show ?thesis by (simp add: presence_score_overflow)
next
  assume q: "int_truediv p c = Inr (PyFloat (Fin (round_double (of_int p / of_int c))))"
  show ?thesis
    using py_min_le [OF ieee_result_not_NaN, of "round_double (of_int p / of_int c) * 40"]
    by (simp add: presence_score_of_ratio [OF q] q)
qed

lemma presence_score_range:
  assumes "0 < c" "0 \<le> p" "int_truediv p c \<noteq> Inl OverflowError"
  shows "\<exists>v. presence_score p c = Inr v
           \<and> (v = PyInt 40 \<or> (\<exists>r. v = PyFloat (Fin r) \<and> 0 \<le> r \<and> r \<le> 40))"
proof -
  define q where "q = round_double (of_int p / of_int c)"
  have q: "int_truediv p c = Inr (PyFloat (Fin q))"
    using int_truediv_cases [of c p] assms by (simp add: q_def)
  have "0 \<le> rat_of_int p / rat_of_int c" using assms by simp
  then have "0 \<le> q" unfolding q_def by (rule round_double_nonneg)
  then have "0 \<le> q * 40" by simp
  then have "float_le (Fin 0) (ieee_result (q * 40))"
    using round_double_zero by (rule ieee_result_ge) (simp add: dbl_limit_def)
  from py_min_range [OF this] show ?thesis
    by (simp add: presence_score_of_ratio [OF q])
qed

lemma compute_cei_le:
  "case compute_cei part att p c of Inl e \<Rightarrow> e = OverflowError | Inr v \<Rightarrow> num_le v (PyInt 40)"
proof (cases "c \<le> 0")
  case True
  then show ?thesis by (simp add: compute_cei_def num_le_def)
next
  case False
  then have c: "c \<noteq> 0" by simp
  from presence_score_le [OF c, of p] show ?thesis
  proof
    assume "presence_score p c = Inl OverflowError \<and> int_truediv p c = Inl OverflowError"
    then show ?thesis using False by (simp add: compute_cei_def and_then_Inl)
  next
    assume "\<exists>v. presence_score p c = Inr v \<and> int_truediv p c \<noteq> Inl OverflowError
              \<and> (v = PyInt 40 \<or> (\<exists>f. v = PyFloat f \<and> float_le f (Fin 40)))"
    then obtain v where v: "presence_score p c = Inr v"
      and pv: "v = PyInt 40 \<or> (\<exists>f. v = PyFloat f \<and> float_le f (Fin 40))" by blast
    from weighted_sum_le [OF pv, of part att] obtain f where
      f: "weighted_sum (PyInt (level_points part)) (PyInt (level_points att)) v = Inr (PyFloat f)"
      and f_bd: "float_le f (Fin 40)" by blast
    have "compute_cei part att p c = py_round2 (PyFloat f)"
      using False by (simp add: compute_cei_def scores_get v f and_then_Inr)
    with py_round2_le [OF f_bd] show ?thesis by simp
  qed
qed

lemma compute_cei_range:
  assumes "0 \<le> p" "c \<le> 0 \<or> int_truediv p c \<noteq> Inl OverflowError"
  shows "\<exists>v. compute_cei part att p c = Inr v \<and> num_le (PyInt 0) v \<and> num_le v (PyInt 40)"
proof (cases "c \<le> 0")
  case True
  then show ?thesis by (simp add: compute_cei_def num_le_def)
next
  case False
  then have c: "0 < c" and nov: "int_truediv p c \<noteq> Inl OverflowError" using assms(2) by simp_all
  from presence_score_range [OF c assms(1) nov] obtain v where
    v: "presence_score p c = Inr v"
    and pv: "v = PyInt 40 \<or> (\<exists>r. v = PyFloat (Fin r) \<and> 0 \<le> r \<and> r \<le> 40)" by blast
  from weighted_sum_range [OF pv, of part att] obtain w where
    w: "weighted_sum (PyInt (level_points part)) (PyInt (level_points att)) v = Inr (PyFloat (Fin w))"
    and w_bd: "0 \<le> w" "w \<le> 40" by blast
  have "compute_cei part att p c = py_round2 (PyFloat (Fin w))"
    using False by (simp add: compute_cei_def scores_get v w and_then_Inr del: py_round2.simps)
  with py_round2_range [OF w_bd] show ?thesis by (auto simp add: num_le_def)
qed

section \<open>Overflow of the division\<close>

lemma round_double_2_powi_1024: "round_double (2 powi 1024) = 2 powi 1024"
  by (rule round_double_pow2) simp

lemma round_double_2_pow_1024: "round_double (2 ^ 1024) = 2 ^ 1024"
  using round_double_2_powi_1024 by (simp only: power_int_numeral)

lemma quotient_2_pow_1024: "rat_of_int (2 ^ 1024) / rat_of_int 1 = 2 ^ 1024"
  by (simp only: of_int_power of_int_numeral of_int_1 div_by_1)

lemma int_truediv_overflow: "int_truediv (2 ^ 1024) 1 = Inl OverflowError"
proof -
  have "dbl_limit \<le> \<bar>round_double (rat_of_int (2 ^ 1024) / rat_of_int 1)\<bar>"
    unfolding quotient_2_pow_1024 round_double_2_pow_1024 dbl_limit_def by (simp only: power_abs abs_numeral order_refl)
  moreover have "(1::int) \<noteq> 0" by simp
  ultimately show ?thesis unfolding int_truediv_def Let_def by (simp only: if_True if_False)
qed

lemma cei_overflow: "compute_cei l1 l2 (2 ^ 1024) 1 = Inl OverflowError"
  unfolding compute_cei_def Let_def presence_score_overflow [OF int_truediv_overflow] and_then_Inl
  by (simp only: not_one_le_zero if_False)

lemma int_truediv_no_overflow:
  assumes "c \<noteq> 0" "\<bar>of_int p / of_int c :: rat\<bar> \<le> 2 ^ 1023"
  shows "int_truediv p c \<noteq> Inl OverflowError"
proof -
  define x :: rat where "x = of_int p / of_int c"
  define h :: rat where "h = 2 ^ 1023"
  have "round_double (2 powi 1023) = 2 powi 1023" by (rule round_double_pow2) simp
  then have p2: "round_double h = h" unfolding h_def by (simp only: power_int_numeral)
  have "\<bar>x\<bar> \<le> h" using assms(2) unfolding x_def h_def .
  then have "x \<le> h" "- h \<le> x" by (simp_all add: abs_le_iff)
  then have "round_double x \<le> round_double h" "round_double (- h) \<le> round_double x"
    by (simp_all only: round_double_mono)
  then have "\<bar>round_double x\<bar> \<le> h" by (simp add: round_double_minus p2 abs_le_iff)
  moreover have "h < dbl_limit" unfolding h_def dbl_limit_def
    by (rule power_strict_increasing) simp_all
  ultimately have "\<bar>round_double x\<bar> < dbl_limit" by (rule le_less_trans)
  then show ?thesis using assms(1) by (simp add: int_truediv_def Let_def x_def)
qed

text \<open>In particular the division returns whenever \<open>0 \<le> p \<le> 2\<^sup>1\<^sup>0\<^sup>2\<^sup>3 \<sqdot> c\<close>.\<close>

lemma int_truediv_fits:
  assumes "0 < c" "0 \<le> p" "p \<le> 2 ^ 1023 * c"
  shows "int_truediv p c \<noteq> Inl OverflowError"
proof -
  define h :: int where "h = 2 ^ 1023"
  have "rat_of_int p \<le> rat_of_int (h * c)" using assms(3) unfolding h_def by (simp only: of_int_le_iff)
  then have "rat_of_int p \<le> rat_of_int h * rat_of_int c" by simp
  then have "rat_of_int p / rat_of_int c \<le> rat_of_int h"
    using assms(1) by (simp add: pos_divide_le_eq)
  moreover have "0 \<le> rat_of_int p / rat_of_int c" using assms by simp
  ultimately have "\<bar>rat_of_int p / rat_of_int c\<bar> \<le> rat_of_int h" by simp
  moreover have "rat_of_int h = 2 ^ 1023" unfolding h_def by (simp only: of_int_power of_int_numeral)
  ultimately have "\<bar>rat_of_int p / rat_of_int c\<bar> \<le> 2 ^ 1023" by (simp only:)
  with assms(1) show ?thesis by (intro int_truediv_no_overflow) simp_all
qed




lemma cei_score_le: "cei_score x \<Longrightarrow> x \<le> 40"
proof (induction rule: cei_score.induct)
  case (1 participation attentiveness present class_size v x)
  from compute_cei_le [of participation attentiveness present class_size] 1
  show ?case by (simp add: num_le_def)
qed

section \<open>Evaluated calls\<close>

lemma cei_medium_medium_5_10: "compute_cei ''medium'' ''medium'' 5 10 = Inr (PyFloat (Fin 24))"
  by code_simp

lemma cei_low_high_100_10: "compute_cei ''low'' ''high'' 100 10 = Inr (PyFloat (Fin 28))"
  by code_simp

lemma cei_low_low_neg100_10: "compute_cei ''low'' ''low'' (- 100) 10 = Inr (PyFloat (Fin (- 72)))"
  by code_simp


lemma presence_neg100_10: "presence_score (- 100) 10 = Inr (PyFloat (Fin (- 400)))"
  by code_simp

lemma truediv_5_10: "int_truediv 5 10 = Inr (PyFloat (Fin (1 / 2)))"
  by code_simp

text \<open>
  Rounding when the exact weighted sum ends in a 5 at the third decimal place. With one
  student present out of 64 the sum \<open>8.125\<close> is a binary fraction, the tie is exact and
  goes to the even digit. With one out of 1600 the float sum lies just above \<open>8.005\<close> and
  the result is rounded up.
\<close>

lemma cei_tie_exact: "compute_cei ''low'' ''low'' 1 64 = Inr (PyFloat (float_literal (812 / 100)))"
  by code_simp

lemma cei_tie_inexact: "compute_cei ''low'' ''low'' 1 1600 = Inr (PyFloat (float_literal (801 / 100)))"
  by code_simp

section \<open>The bands of the trend interpreter\<close>

lemma interpret_engagement_eq:
  "interpret_engagement s =
     (if 75 \<le> series_avg s \<and> series_avg s < 100
        then (''green'', ''Class is responding well. Keep your current approach.'')
      else if 60 \<le> series_avg s \<and> series_avg s < 75
        then (''yellow'', ''Engagement is fair. Small adjustments may help.'')
      else if 0 \<le> series_avg s \<and> series_avg s < 60
        then (''red'', ''Engagement is low. Consider changing pace or method.'')
      else (''red'', ''Engagement data unclear. Please reflect more consistently.''))"
  by (simp add: interpret_engagement_def ENGAGEMENT_RULES_def Let_def)

lemma series_avg_nonempty: "s \<noteq> [] \<Longrightarrow> series_avg s = series_mean s"
  by (simp add: series_avg_def series_empty_def)

lemma series_avg_empty: "series_avg [] = 0"
  by (simp add: series_avg_def series_empty_def)

lemma sum_list_le: "(\<forall>x\<in>set s. x \<le> b) \<Longrightarrow> sum_list s \<le> b * of_nat (length s)" for b :: rat
  by (induction s) (auto simp add: algebra_simps)

lemma series_mean_le:
  assumes "s \<noteq> []" "\<forall>x\<in>set s. x \<le> b"
  shows "series_mean s \<le> b"
proof -
  have "0 < (of_nat (length s) :: rat)" using assms(1) by simp
  then show ?thesis
    using sum_list_le [OF assms(2)] by (simp add: series_mean_def pos_divide_le_eq)
qed

section \<open>Consequences used by the claims\<close>

lemma float_le_40_100: "float_le f (Fin 40) \<Longrightarrow> float_le f (Fin 100)"
  by (cases f) simp_all

lemma compute_cei_no_zero_division:
  "compute_cei participation attentiveness present class_size \<noteq> Inl ZeroDivisionError"
  using compute_cei_le [of participation attentiveness present class_size]
  by (cases "compute_cei participation attentiveness present class_size") auto

lemma compute_cei_nonneg:
  assumes "0 \<le> present" "compute_cei participation attentiveness present class_size = Inr v"
  shows "num_le (PyInt 0) v"
proof (cases "class_size \<le> 0 \<or> int_truediv present class_size \<noteq> Inl OverflowError")
  case True
  from compute_cei_range [OF assms(1) True, of participation attentiveness] assms(2)
  show ?thesis by auto
next
  case False
  then have "\<not> class_size \<le> 0" and "presence_score present class_size = Inl OverflowError"
    by (simp_all add: presence_score_overflow)
  then have "compute_cei participation attentiveness present class_size = Inl OverflowError"
    by (simp add: compute_cei_def and_then_Inl)
  with assms(2) show ?thesis by simp
qed

lemma cei_score_24: "cei_score 24"
  using cei_medium_medium_5_10 by (rule cei_score.intros) simp

lemma cei_score_28: "cei_score 28"
  using cei_low_high_100_10 by (rule cei_score.intros) simp

section \<open>The claims of the specification\<close>



text \<open>
  Claim C2. For a non-empty series with arithmetic mean \<open>m\<close>, \<^verbatim>\<open>interpret_engagement\<close>
  returns the green pair when \<open>75 \<le> m < 100\<close>, the yellow pair when \<open>60 \<le> m < 75\<close> and the red
  "Engagement is low" pair when \<open>0 \<le> m < 60\<close>. The bands are half-open: a mean of exactly 75
  is green and a mean of exactly 60 is yellow.
\<close>

theorem interpret_engagement_bands:
  assumes "s \<noteq> []"
  shows "(75 \<le> series_mean s \<and> series_mean s < 100 \<longrightarrow>
            interpret_engagement s
              = (''green'', ''Class is responding well. Keep your current approach.''))
       \<and> (60 \<le> series_mean s \<and> series_mean s < 75 \<longrightarrow>
            interpret_engagement s
              = (''yellow'', ''Engagement is fair. Small adjustments may help.''))
       \<and> (0 \<le> series_mean s \<and> series_mean s < 60 \<longrightarrow>
            interpret_engagement s
              = (''red'', ''Engagement is low. Consider changing pace or method.''))
       \<and> (series_mean s = 75 \<longrightarrow> fst (interpret_engagement s) = ''green'')
       \<and> (series_mean s = 60 \<longrightarrow> fst (interpret_engagement s) = ''yellow'')"
  by (simp add: interpret_engagement_eq series_avg_nonempty [OF assms])

theorem interpret_engagement_bands_witness:
  "[80, 90] \<noteq> ([] :: series)
   \<and> interpret_engagement [80, 90]
       = (''green'', ''Class is responding well. Keep your current approach.'')
   \<and> interpret_engagement [65, 70]
       = (''yellow'', ''Engagement is fair. Small adjustments may help.'')
   \<and> interpret_engagement [30, 40]
       = (''red'', ''Engagement is low. Consider changing pace or method.'')
   \<and> fst (interpret_engagement [75, 75]) = ''green''
   \<and> fst (interpret_engagement [60]) = ''yellow''"
  using interpret_engagement_bands [of "[80, 90]"] interpret_engagement_bands [of "[65, 70]"]
    interpret_engagement_bands [of "[30, 40]"] interpret_engagement_bands [of "[75, 75]"]
    interpret_engagement_bands [of "[60]"]
  by (simp add: series_mean_def)

text \<open>
  Claim C3, as the specification states it: the empty series is answered with the fallback
  pair "Engagement data unclear". The code does not do that.
\<close>

theorem empty_series_not_unclear:
  "interpret_engagement []
     \<noteq> (''red'', ''Engagement data unclear. Please reflect more consistently.'')"
  by (simp add: interpret_engagement_eq series_avg_empty)

text \<open>
  Claim C3, amended: for the empty series \<^verbatim>\<open>interpret_engagement\<close> returns the red pair of
  the lowest band, "Engagement is low".
\<close>

theorem empty_series_is_low:
  "interpret_engagement [] = (''red'', ''Engagement is low. Consider changing pace or method.'')"
  by (simp add: interpret_engagement_eq series_avg_empty)

text \<open>
  Claim C4. For the empty series the average is taken to be 0, and the answer is the one
  the bands give for 0: the red "Engagement is low" pair. A series of length 0 or 1 always
  gets one of the three statuses, and a series of one score is classified by that score.
\<close>

theorem short_series_defined:
  "series_avg [] = 0
   \<and> first_rule ENGAGEMENT_RULES 0
       = Some (''red'', ''Engagement is low. Consider changing pace or method.'')
   \<and> interpret_engagement []
       = (''red'', ''Engagement is low. Consider changing pace or method.'')
   \<and> series_avg [x] = x
   \<and> (length s \<le> 1 \<longrightarrow> fst (interpret_engagement s) \<in> {''green'', ''yellow'', ''red''})"
  by (simp add: interpret_engagement_eq series_avg_def series_empty_def series_mean_def
      ENGAGEMENT_RULES_def)

theorem short_series_defined_witness:
  "length [70 :: rat] \<le> 1
   \<and> fst (interpret_engagement [70]) \<in> {''green'', ''yellow'', ''red''}
   \<and> series_avg [70] = 70"
  using short_series_defined [of 70 "[70]"] by simp



text \<open>
  Claim C6. For a class size of 0 or less \<^verbatim>\<open>compute_cei\<close> returns the integer 0, whatever
  the other arguments are. The division, which would raise ZeroDivisionError for a class
  size of 0, is not reached: no call of \<^verbatim>\<open>compute_cei\<close> raises ZeroDivisionError.
\<close>

theorem nonpositive_class_size_scores_zero:
  "(class_size \<le> 0 \<longrightarrow>
      compute_cei participation attentiveness present class_size = Inr (PyInt 0))
   \<and> compute_cei participation attentiveness present class_size \<noteq> Inl ZeroDivisionError
   \<and> int_truediv present 0 = Inl ZeroDivisionError"
  using compute_cei_no_zero_division [of participation attentiveness present class_size]
  by (simp add: compute_cei_def int_truediv_def)

theorem nonpositive_class_size_scores_zero_witness:
  "(0::int) \<le> 0 \<and> compute_cei ''high'' ''high'' 30 0 = Inr (PyInt 0)
   \<and> (- 3 :: int) \<le> 0 \<and> compute_cei ''high'' ''low'' 5 (- 3) = Inr (PyInt 0)"
  using nonpositive_class_size_scores_zero [of 0 "''high''" "''high''" 30]
    nonpositive_class_size_scores_zero [of "- 3" "''high''" "''low''" 5]
  by simp

text \<open>
  Claim C7, as the specification states it: every valid input, with a number present of 0
  or more, has a score between 0 and 100. A number present of \<open>2\<^sup>1\<^sup>0\<^sup>2\<^sup>4\<close> in a class of one
  is such an input, and the call raises OverflowError in the division.
\<close>

theorem huge_present_raises:
  "(0::int) \<le> 2 ^ 1024 \<and> compute_cei ''low'' ''low'' (2 ^ 1024) 1 = Inl OverflowError"
proof
  show "(0::int) \<le> 2 ^ 1024" by (rule zero_le_power) simp
  show "compute_cei ''low'' ''low'' (2 ^ 1024) 1 = Inl OverflowError" by (rule cei_overflow)
qed

text \<open>
  Claim C7, amended: for every input with a number present of 0 or more, and with a class
  size of 0 or less or a quotient \<^verbatim>\<open>present / class_size\<close> that fits a float,
  \<^verbatim>\<open>compute_cei\<close> returns a score between 0 and 100.
\<close>

theorem compute_cei_in_range:
  assumes "0 \<le> present"
    and "class_size \<le> 0 \<or> int_truediv present class_size \<noteq> Inl OverflowError"
  shows "\<exists>v. compute_cei participation attentiveness present class_size = Inr v
           \<and> num_le (PyInt 0) v \<and> num_le v (PyInt 100)"
  using compute_cei_range [OF assms, of participation attentiveness]
  by (auto simp add: num_le_def intro: float_le_40_100)

theorem compute_cei_in_range_witness:
  "(0::int) \<le> 5 \<and> int_truediv 5 10 \<noteq> Inl OverflowError
   \<and> compute_cei ''medium'' ''medium'' 5 10 = Inr (PyFloat (Fin 24))
   \<and> num_le (PyInt 0) (PyFloat (Fin 24)) \<and> num_le (PyFloat (Fin 24)) (PyInt 100)"
  using compute_cei_in_range [of 5 10 "''medium''" "''medium''"] truediv_5_10
    cei_medium_medium_5_10
  by (simp add: num_le_def)

text \<open>
  Claim C8. A non-empty series whose mean is below 0, or 100 or more, lies in no band and
  gets the fallback pair "Engagement data unclear". The fallback can be reached: the series
  of the single score -5 and the series of the single score 100 both produce it.
\<close>

theorem out_of_band_fallback:
  "(s \<noteq> [] \<and> (series_mean s < 0 \<or> 100 \<le> series_mean s) \<longrightarrow>
      interpret_engagement s
        = (''red'', ''Engagement data unclear. Please reflect more consistently.''))
   \<and> interpret_engagement [- 5]
       = (''red'', ''Engagement data unclear. Please reflect more consistently.'')
   \<and> interpret_engagement [100]
       = (''red'', ''Engagement data unclear. Please reflect more consistently.'')"
  by (auto simp add: interpret_engagement_eq series_avg_def series_empty_def series_mean_def)

theorem out_of_band_fallback_witness:
  "[- 5, - 7] \<noteq> ([] :: series) \<and> series_mean [- 5, - 7] < 0
   \<and> interpret_engagement [- 5, - 7]
       = (''red'', ''Engagement data unclear. Please reflect more consistently.'')
   \<and> 100 \<le> series_mean [100, 120]
   \<and> interpret_engagement [100, 120]
       = (''red'', ''Engagement data unclear. Please reflect more consistently.'')"
  using out_of_band_fallback [of "[- 5, - 7]"] out_of_band_fallback [of "[100, 120]"]
  by (simp add: series_mean_def)

text \<open>
  Claim C9, as stated: a series of computed scores can only get the red "Engagement is low"
  pair. The call (low, low, -100, 10) returns -72.0, and the series of that single score
  gets the fallback pair instead.
\<close>

theorem negative_score_series_unclear:
  "compute_cei ''low'' ''low'' (- 100) 10 = Inr (PyFloat (Fin (- 72)))
   \<and> interpret_engagement [- 72]
       = (''red'', ''Engagement data unclear. Please reflect more consistently.'')
   \<and> interpret_engagement [- 72]
       \<noteq> (''red'', ''Engagement is low. Consider changing pace or method.'')"
  by (simp add: cei_low_low_neg100_10 interpret_engagement_eq series_avg_def series_empty_def
      series_mean_def)

text \<open>
  Claim C9, amended: every value that \<^verbatim>\<open>compute_cei\<close> returns is at most 40 (a call that
  does not return raises OverflowError). So the mean of a non-empty series of computed
  scores is at most 40, below the yellow and green bands, and the status is always red:
  the "Engagement is low" pair when the mean is 0 or more, the fallback pair when the mean
  is negative.
\<close>

theorem computed_scores_stay_red:
  "(case compute_cei participation attentiveness present class_size of
      Inl e \<Rightarrow> e = OverflowError
    | Inr v \<Rightarrow> num_le v (PyInt 40))
   \<and> (s \<noteq> [] \<and> (\<forall>x\<in>set s. cei_score x) \<longrightarrow>
        series_mean s \<le> 40
        \<and> interpret_engagement s
            = (''red'',
               if 0 \<le> series_mean s
               then ''Engagement is low. Consider changing pace or method.''
               else ''Engagement data unclear. Please reflect more consistently.''))"
proof (intro conjI impI)
  show "case compute_cei participation attentiveness present class_size of
          Inl e \<Rightarrow> e = OverflowError
        | Inr v \<Rightarrow> num_le v (PyInt 40)"
    by (rule compute_cei_le)
next
  assume a: "s \<noteq> [] \<and> (\<forall>x\<in>set s. cei_score x)"
  then have "\<forall>x\<in>set s. x \<le> 40" by (auto dest: cei_score_le)
  with a show m: "series_mean s \<le> 40" by (intro series_mean_le) simp_all
  from a m show "interpret_engagement s
            = (''red'',
               if 0 \<le> series_mean s
               then ''Engagement is low. Consider changing pace or method.''
               else ''Engagement data unclear. Please reflect more consistently.'')"
    by (simp add: interpret_engagement_eq series_avg_nonempty)
qed

theorem computed_scores_stay_red_witness:
  "[24, 28] \<noteq> ([] :: series) \<and> cei_score 24 \<and> cei_score 28
   \<and> series_mean [24, 28] \<le> 40
   \<and> interpret_engagement [24, 28]
       = (''red'', ''Engagement is low. Consider changing pace or method.'')"
  using computed_scores_stay_red [of "''low''" "''low''" 1 1 "[24, 28]"] cei_score_24 cei_score_28
  by (simp add: series_mean_def)

text \<open>
  Claim C10. With a negative number present the score can be negative: the call
  (low, low, -100, 10) has the presence component -400.0, which \<^verbatim>\<open>min\<close> leaves as it is,
  and returns -72.0. With a number present of 0 or more every returned score is 0 or more.
\<close>

theorem negative_present_negative_score:
  "compute_cei ''low'' ''low'' (- 100) 10 = Inr (PyFloat (Fin (- 72)))
   \<and> num_less (PyFloat (Fin (- 72))) (PyInt 0)
   \<and> presence_score (- 100) 10 = Inr (PyFloat (Fin (- 400)))
   \<and> (0 \<le> present \<longrightarrow>
        (\<forall>v. compute_cei participation attentiveness present class_size = Inr v \<longrightarrow>
               num_le (PyInt 0) v))"
  using compute_cei_nonneg [of present participation attentiveness class_size]
  by (simp add: cei_low_low_neg100_10 presence_neg100_10 num_less_def)

theorem negative_present_negative_score_witness:
  "(0::int) \<le> 5 \<and> compute_cei ''medium'' ''medium'' 5 10 = Inr (PyFloat (Fin 24))
   \<and> num_le (PyInt 0) (PyFloat (Fin 24))"
  using negative_present_negative_score [of 5 "''medium''" "''medium''" 10]
    cei_medium_medium_5_10
  by simp

end
